theory Spec2Isabelle
  imports Main "HOL-Library.Word"
begin

unbundle bit_operations_syntax

section \<open>The spell-check client of atom/renderer/api/atom\_api\_spell\_check\_client.cc\<close>

text \<open>
  The file embeds \<^verbatim>\<open>atom::api::SpellCheckClient\<close>: the class that Blink calls to check
  spelling and that forwards the questions to a JavaScript provider object.  The class
  itself is translated from the source.  What it calls and what is declared elsewhere
  (V8 values, ICU's UTF-16 macros, Chromium's word iterator, the \<^verbatim>\<open>NOTREACHED\<close> macro,
  the native\_mate converters) is modelled next to the place that uses it, each time
  under a remark that says so.
\<close>

subsection \<open>Strings, JavaScript values, faults\<close>

type_synonym char16 = "16 word"
type_synonym string16 = "char16 list"
type_synonym uint32 = "32 word"

text \<open>
  A \<^verbatim>\<open>blink::WebString\<close> is either the null string (\<^verbatim>\<open>WebString()\<close>) or a sequence of
  UTF-16 code units.  Its \<^verbatim>\<open>length()\<close> is 0 for the null string, and converting it to a
  \<^verbatim>\<open>base::string16\<close> gives the empty string for the null string.
\<close>

type_synonym WebString = "string16 option"

definition WebString_length :: "WebString \<Rightarrow> nat" where
  "WebString_length s = (case s of None \<Rightarrow> 0 | Some u \<Rightarrow> length u)"

definition to_string16 :: "WebString \<Rightarrow> string16" where
  "to_string16 s = (case s of None \<Rightarrow> [] | Some u \<Rightarrow> u)"

text \<open>
  The values a JavaScript call can hand back.  Numbers are the integral ones only: the
  code looks at a number in one place, through \<^verbatim>\<open>IsInt32\<close>.
\<close>

datatype js_value =
    JSUndefined
  | JSNull
  | JSBoolean bool
  | JSNumber int
  | JSString string16
  | JSArray "js_value list"
  | JSObject "(string \<times> js_value) list"

text \<open>
  The ways a call of the C++ code can end other than by returning: a read outside a
  buffer, and the \<^verbatim>\<open>NOTREACHED()\<close> assertion with its message.
\<close>

datatype fault = OutOfBounds | NotReached string

subsection \<open>The provider and the client\<close>

text \<open>
  The provider is a JavaScript object living in the V8 isolate.  The type variable
  \<open>'w\<close> is the state of that isolate (the JavaScript heap); a JavaScript function is
  a function from its argument and the heap to its result and the new heap, so a
  provider may answer differently each time it is asked.  Calls are assumed to complete
  with a value.  \<open>Has\<close> is \<^verbatim>\<open>v8::Object::Has\<close>, \<open>MakeCallback\<close> is
  \<^verbatim>\<open>node::MakeCallback\<close> on the provider with one string argument.
\<close>

type_synonym 'w js_function = "string16 \<Rightarrow> 'w \<Rightarrow> js_value \<times> 'w"

record 'w js_provider =
  Has :: "string \<Rightarrow> 'w \<Rightarrow> bool"
  MakeCallback :: "string \<Rightarrow> 'w js_function"

text \<open>
  Modelled from the spec: \<^verbatim>\<open>SpellcheckCharAttribute\<close> and \<^verbatim>\<open>SpellcheckWordIterator\<close>,
  declared in chrome/renderer/spellchecker/spellcheck\_worditerator.h, which is not
  among the sources.  The spec's WordSegmenter "consumes a text buffer and a
  character-attribute profile and produces a lazy, restartable sequence of (word,
  start-offset, length) triples", "finite", "restartable by re-setting the text on the
  same iterator state", and its initialization may fail.  The profile says, for each of
  the two modes (contractions allowed or not), whether the break rules open and how they
  split a text; the iterator holds the opened rules and the words still to come.
\<close>

type_synonym word_span = "string16 \<times> int \<times> int"

record SpellcheckCharAttribute =
  opens :: "bool \<Rightarrow> bool"
  breaks :: "bool \<Rightarrow> string16 \<Rightarrow> word_span list"

record SpellcheckWordIterator =
  iterator :: "(string16 \<Rightarrow> word_span list) option"
  remaining :: "word_span list"

definition IsInitialized :: "SpellcheckWordIterator \<Rightarrow> bool" where
  "IsInitialized it = (iterator it \<noteq> None)"

definition Initialize ::
  "SpellcheckWordIterator \<Rightarrow> SpellcheckCharAttribute \<Rightarrow> bool \<Rightarrow> bool \<times> SpellcheckWordIterator" where
  "Initialize it attribute allow_contraction =
     (if opens attribute allow_contraction
      then (True, it\<lparr>iterator := Some (breaks attribute allow_contraction)\<rparr>)
      else (False, it))"

definition SetText :: "SpellcheckWordIterator \<Rightarrow> string16 \<Rightarrow> SpellcheckWordIterator" where
  "SetText it text =
     (case iterator it of
        None \<Rightarrow> it
      | Some split \<Rightarrow> it\<lparr>remaining := split text\<rparr>)"

definition GetNextWord :: "SpellcheckWordIterator \<Rightarrow> word_span option \<times> SpellcheckWordIterator" where
  "GetNextWord it =
     (case remaining it of
        [] \<Rightarrow> (None, it)
      | w # ws \<Rightarrow> (Some w, it\<lparr>remaining := ws\<rparr>))"

text \<open>
  The members of \<^verbatim>\<open>SpellCheckClient\<close> (atom\_api\_spell\_check\_client.h, lines 60 to 74).
  Each field carries the member's name without the trailing underscore.
  \<open>isolate\<close> stands for the state of the isolate the pointer refers to;
  \<open>spell_check\<close> is the persistent handle to the provider's \<^verbatim>\<open>spellCheck\<close>
  function, \<open>None\<close> when the handle is empty.
\<close>

record 'w SpellCheckClient =
  character_attributes :: SpellcheckCharAttribute
  text_iterator :: SpellcheckWordIterator
  contraction_iterator :: SpellcheckWordIterator
  isolate :: 'w
  provider :: "'w js_provider"
  spell_check :: "'w js_function option"

subsection \<open>CheckSpelling (lines 178 to 191)\<close>

definition CheckSpelling :: "'w SpellCheckClient \<Rightarrow> string16 \<Rightarrow> bool \<times> 'w SpellCheckClient" where
  "CheckSpelling c word_to_check =
     (case spell_check c of
        None \<Rightarrow> (True, c)
      | Some f \<Rightarrow>
          (let (result, w') = f word_to_check (isolate c);
               c' = c\<lparr>isolate := w'\<rparr>
           in case result of
                JSBoolean b \<Rightarrow> (b, c')
              | _ \<Rightarrow> (True, c')))"

subsection \<open>HasWordCharacters (lines 41 to 52)\<close>

text \<open>
  Modelled from the spec: the macro \<^verbatim>\<open>U16_NEXT\<close> of ICU's unicode/utf16.h and the
  constant \<^verbatim>\<open>USCRIPT_COMMON\<close> of unicode/uscript.h, neither among the sources.  The spec
  asks for "decoding each as a full code point (not a single code unit, so
  surrogate/multi-unit encodings must be decoded correctly)"; the macro does it this way:
  \<^verbatim>\<open>
  (c)=(s)[(i)++];
  if(U16_IS_LEAD(c)) {
      uint16_t __c2;
      if((i)!=(length) && U16_IS_TRAIL(__c2=(s)[(i)])) {
          ++(i);
          (c)=U16_GET_SUPPLEMENTARY((c), __c2);
      }
  }
  \<close>
  The index is a C \<^verbatim>\<open>int\<close>; a read at an index outside the buffer is the fault
  \<open>OutOfBounds\<close>.  Texts are taken to be shorter than \<open>2 ^ 31\<close> code units, so that the
  \<^verbatim>\<open>int\<close> holds every index.
\<close>

definition U16_IS_LEAD :: "uint32 \<Rightarrow> bool" where
  "U16_IS_LEAD c = (c AND 0xFFFFFC00 = 0xD800)"

definition U16_IS_TRAIL :: "uint32 \<Rightarrow> bool" where
  "U16_IS_TRAIL c = (c AND 0xFFFFFC00 = 0xDC00)"

definition U16_SURROGATE_OFFSET :: uint32 where
  "U16_SURROGATE_OFFSET = push_bit 10 0xD800 + 0xDC00 - 0x10000"

definition U16_GET_SUPPLEMENTARY :: "uint32 \<Rightarrow> uint32 \<Rightarrow> uint32" where
  "U16_GET_SUPPLEMENTARY lead trail = push_bit 10 lead + trail - U16_SURROGATE_OFFSET"

definition read16 :: "string16 \<Rightarrow> int \<Rightarrow> fault + char16" where
  "read16 s i = (if 0 \<le> i \<and> i < int (length s) then Inr (s ! nat i) else Inl OutOfBounds)"

definition U16_NEXT :: "string16 \<Rightarrow> int \<Rightarrow> int \<Rightarrow> fault + (uint32 \<times> int)" where
  "U16_NEXT s i len =
     (case read16 s i of
        Inl e \<Rightarrow> Inl e
      | Inr u \<Rightarrow>
          (let c = ucast u; i1 = i + 1 in
           if U16_IS_LEAD c then
             (if i1 \<noteq> len then
                (case read16 s i1 of
                   Inl e \<Rightarrow> Inl e
                 | Inr c2 \<Rightarrow>
                     if U16_IS_TRAIL (ucast c2)
                     then Inr (U16_GET_SUPPLEMENTARY c (ucast c2), i1 + 1)
                     else Inr (c, i1))
              else Inr (c, i1))
           else Inr (c, i1)))"

type_synonym UScriptCode = int

definition USCRIPT_COMMON :: UScriptCode where
  "USCRIPT_COMMON = 0"

lemma U16_NEXT_advances: "U16_NEXT s i len = Inr (c, j) \<Longrightarrow> i < j"
  by (auto simp: U16_NEXT_def Let_def split: sum.splits if_splits)

text \<open>
  \<open>uscript_getScript\<close>, ICU's script lookup, is a parameter: any function from code
  points to script codes.
\<close>

function HasWordCharacters :: "(uint32 \<Rightarrow> UScriptCode) \<Rightarrow> string16 \<Rightarrow> int \<Rightarrow> fault + bool" where
  "HasWordCharacters uscript_getScript text index =
     (if index < int (length text) then
        (case U16_NEXT text index (int (length text)) of
           Inl e \<Rightarrow> Inl e
         | Inr (code, index') \<Rightarrow>
             if uscript_getScript code \<noteq> USCRIPT_COMMON then Inr True
             else HasWordCharacters uscript_getScript text index')
      else Inr False)"
  by pat_completeness auto
termination
  by (relation "measure (\<lambda>(g, text, index). nat (int (length text) - index))")
     (auto dest: U16_NEXT_advances)

declare HasWordCharacters.simps [simp del]

subsection \<open>Converting JavaScript results (lines 21 to 31)\<close>

text \<open>
  Modelled from the spec: the converters of native\_mate (\<^verbatim>\<open>mate::ConvertFromV8\<close> for
  \<^verbatim>\<open>mate::Dictionary\<close>, \<^verbatim>\<open>int\<close> and \<^verbatim>\<open>std::vector\<close>, and \<^verbatim>\<open>Dictionary::Get\<close>) and the
  \<^verbatim>\<open>base::string16\<close> converter of atom/common/native\_mate\_converters/string16\_converter.h,
  none among the sources.  The spec speaks of a result that "cannot be converted to
  text" and of one that "cannot be converted into a sequence of CheckResult".  A
  conversion that fails returns \<open>None\<close> (the C++ returns false); one that succeeds
  returns the converted value (the C++ returns true and fills its out parameter).
  An object converts to a dictionary of its properties, a number in the 32-bit signed
  range converts to \<^verbatim>\<open>int\<close>, an array converts element by element and fails at the
  first element that does not convert, a string converts to its code units.
\<close>

type_synonym Dictionary = "(string \<times> js_value) list"

definition FromV8_Dictionary :: "js_value \<Rightarrow> Dictionary option" where
  "FromV8_Dictionary val =
     (case val of
        JSObject props \<Rightarrow> Some props
      | JSArray items \<Rightarrow> Some [(''length'', JSNumber (int (length items)))]
      | _ \<Rightarrow> None)"

definition FromV8_int :: "js_value \<Rightarrow> int option" where
  "FromV8_int val =
     (case val of
        JSNumber n \<Rightarrow> (if - (2 ^ 31) \<le> n \<and> n < 2 ^ 31 then Some n else None)
      | _ \<Rightarrow> None)"

definition Dictionary_Get :: "(js_value \<Rightarrow> 'a option) \<Rightarrow> Dictionary \<Rightarrow> string \<Rightarrow> 'a option" where
  "Dictionary_Get FromV8 dict key =
     (case map_of dict key of
        None \<Rightarrow> FromV8 JSUndefined
      | Some val \<Rightarrow> FromV8 val)"

fun FromV8_vector :: "(js_value \<Rightarrow> 'a option) \<Rightarrow> js_value list \<Rightarrow> 'a list option" where
  "FromV8_vector FromV8 [] = Some []"
| "FromV8_vector FromV8 (v # vs) =
     (case FromV8 v of
        None \<Rightarrow> None
      | Some item \<Rightarrow>
          (case FromV8_vector FromV8 vs of
             None \<Rightarrow> None
           | Some result \<Rightarrow> Some (item # result)))"

definition FromV8_array :: "(js_value \<Rightarrow> 'a option) \<Rightarrow> js_value \<Rightarrow> 'a list option" where
  "FromV8_array FromV8 val =
     (case val of
        JSArray items \<Rightarrow> FromV8_vector FromV8 items
      | _ \<Rightarrow> None)"

definition FromV8_string16 :: "js_value \<Rightarrow> string16 option" where
  "FromV8_string16 val = (case val of JSString s \<Rightarrow> Some s | _ \<Rightarrow> None)"

text \<open>
  \<^verbatim>\<open>blink::WebTextCheckingResult\<close>, with the two fields the converter of the source
  fills, and that converter, \<^verbatim>\<open>Converter<blink::WebTextCheckingResult>::FromV8\<close>.
\<close>

record WebTextCheckingResult =
  location :: int
  length_of :: int

definition FromV8_WebTextCheckingResult :: "js_value \<Rightarrow> WebTextCheckingResult option" where
  "FromV8_WebTextCheckingResult val =
     (case FromV8_Dictionary val of
        None \<Rightarrow> None
      | Some dict \<Rightarrow>
          (case Dictionary_Get FromV8_int dict ''location'' of
             None \<Rightarrow> None
           | Some loc \<Rightarrow>
               (case Dictionary_Get FromV8_int dict ''length'' of
                  None \<Rightarrow> None
                | Some len \<Rightarrow> Some \<lparr>location = loc, length_of = len\<rparr>)))"

subsection \<open>CallProviderMethod (lines 160 to 176)\<close>

text \<open>
  The template parameter \<^verbatim>\<open>T\<close> is the type variable \<open>'a\<close>, and the converter that
  \<^verbatim>\<open>mate::ConvertFromV8\<close> selects for \<^verbatim>\<open>T\<close> is the first argument.  The result is the
  converted value when the C++ returns true, \<open>None\<close> when it returns false.
\<close>

definition CallProviderMethod ::
  "(js_value \<Rightarrow> 'a option) \<Rightarrow> 'w SpellCheckClient \<Rightarrow> string \<Rightarrow> WebString
     \<Rightarrow> 'a option \<times> 'w SpellCheckClient" where
  "CallProviderMethod FromV8 c method text =
     (if \<not> Has (provider c) method (isolate c) then (None, c)
      else
        (let v8_str = to_string16 text;
             (v8_result, w') = MakeCallback (provider c) method v8_str (isolate c)
         in (FromV8 v8_result, c\<lparr>isolate := w'\<rparr>)))"

subsection \<open>requestCheckingOfText (lines 119 to 138)\<close>

text \<open>
  The completion callback is an object of the host with two methods.  It is modelled by
  what it has been told so far: the list of the signals it received, oldest first.
\<close>

datatype completion_signal =
    didCancelCheckingText
  | didFinishCheckingText "WebTextCheckingResult list"

type_synonym WebTextCheckingCompletion = "completion_signal list"

definition signal :: "WebTextCheckingCompletion \<Rightarrow> completion_signal \<Rightarrow> WebTextCheckingCompletion" where
  "signal completionCallback s = completionCallback @ [s]"

definition requestCheckingOfText ::
  "(uint32 \<Rightarrow> UScriptCode) \<Rightarrow> 'w SpellCheckClient \<Rightarrow> WebString \<Rightarrow> uint32 list \<Rightarrow> uint32 list
     \<Rightarrow> WebTextCheckingCompletion \<Rightarrow> fault + (WebTextCheckingCompletion \<times> 'w SpellCheckClient)" where
  "requestCheckingOfText uscript_getScript c textToCheck markersInText markerOffsets completionCallback =
     (let text = to_string16 textToCheck in
      if text = [] then Inr (signal completionCallback didCancelCheckingText, c)
      else
        (case HasWordCharacters uscript_getScript text 0 of
           Inl e \<Rightarrow> Inl e
         | Inr has \<Rightarrow>
             if \<not> has then Inr (signal completionCallback didCancelCheckingText, c)
             else
               (case CallProviderMethod (FromV8_array FromV8_WebTextCheckingResult) c
                       ''requestCheckingOfText'' textToCheck of
                  (None, c') \<Rightarrow> Inr (signal completionCallback didCancelCheckingText, c')
                | (Some result, c') \<Rightarrow>
                    Inr (signal completionCallback (didFinishCheckingText result), c'))))"

subsection \<open>autoCorrectWord (lines 140 to 147)\<close>

definition autoCorrectWord :: "'w SpellCheckClient \<Rightarrow> WebString \<Rightarrow> WebString \<times> 'w SpellCheckClient" where
  "autoCorrectWord c misspelledWord =
     (case CallProviderMethod FromV8_string16 c ''autoCorrectWord'' misspelledWord of
        (None, c') \<Rightarrow> (None, c')
      | (Some result, c') \<Rightarrow> (Some result, c'))"

subsection \<open>checkTextOfParagraph (lines 106 to 117)\<close>

text \<open>
  Modelled from the spec: the macro \<^verbatim>\<open>NOTREACHED()\<close> of base/logging.h and the constant
  \<^verbatim>\<open>blink::WebTextCheckingTypeSpelling\<close>, neither among the sources.  The spec has the
  assertion "abort loudly (fatal assertion)" and "halt execution with a diagnostic", so a
  call that arrives at it ends with the fault \<open>NotReached\<close> and the message streamed into
  it.  The constant is Blink's \<^verbatim>\<open>1 << 1\<close>.  The pointer \<^verbatim>\<open>results\<close> is \<open>None\<close> when null.
\<close>

type_synonym WebTextCheckingTypeMask = uint32

definition WebTextCheckingTypeSpelling :: uint32 where
  "WebTextCheckingTypeSpelling = push_bit 1 1"

definition checkTextOfParagraph ::
  "'w SpellCheckClient \<Rightarrow> WebString \<Rightarrow> WebTextCheckingTypeMask \<Rightarrow> WebTextCheckingResult list option
     \<Rightarrow> fault + (WebTextCheckingResult list option \<times> 'w SpellCheckClient)" where
  "checkTextOfParagraph c text mask' results =
     (if results = None then Inr (results, c)
      else if mask' AND WebTextCheckingTypeSpelling = 0 then Inr (results, c)
      else Inl (NotReached ''checkTextOfParagraph should never be called''))"

subsection \<open>IsValidContraction (lines 197 to 216)\<close>

text \<open>
  The \<^verbatim>\<open>while\<close> loop of lines 211 to 214 is a recursive function on the client.  It ends
  because each round takes one word from the contraction iterator and \<open>CheckSpelling\<close>
  changes nothing of the client but the state of the isolate.
\<close>

lemma CheckSpelling_frame: "CheckSpelling c w = (b, c') \<Longrightarrow> \<exists>h. c' = c\<lparr>isolate := h\<rparr>"
  by (auto simp: CheckSpelling_def Let_def split: option.splits prod.splits js_value.splits intro: exI [of _ "isolate c"])

function IsValidContraction_loop :: "'w SpellCheckClient \<Rightarrow> bool \<times> 'w SpellCheckClient" where
  "IsValidContraction_loop c =
     (case GetNextWord (contraction_iterator c) of
        (None, it) \<Rightarrow> (True, c\<lparr>contraction_iterator := it\<rparr>)
      | (Some (word, word_start, word_length), it) \<Rightarrow>
          (let (ok, c') = CheckSpelling (c\<lparr>contraction_iterator := it\<rparr>) word in
           if \<not> ok then (False, c')
           else IsValidContraction_loop c'))"
  by pat_completeness auto
termination
proof (relation "measure (\<lambda>c. length (remaining (contraction_iterator c)))")
  show "wf (measure (\<lambda>c. length (remaining (contraction_iterator c))))" by simp
next
  fix c :: "'w SpellCheckClient" and x it a word y word_start word_length xa ok c'
  assume g: "(x, it) = GetNextWord (contraction_iterator c)" "x = Some a"
    and ck: "xa = CheckSpelling (c\<lparr>contraction_iterator := it\<rparr>) word" "(ok, c') = xa"
  from g have "length (remaining it) < length (remaining (contraction_iterator c))"
    by (auto simp: GetNextWord_def split: list.splits)
  moreover from ck CheckSpelling_frame [of "c\<lparr>contraction_iterator := it\<rparr>" word ok c']
  have "contraction_iterator c' = it" by auto
  ultimately show "(c', c) \<in> measure (\<lambda>c. length (remaining (contraction_iterator c)))"
    by simp
qed

declare IsValidContraction_loop.simps [simp del]

definition IsValidContraction :: "'w SpellCheckClient \<Rightarrow> string16 \<Rightarrow> bool \<times> 'w SpellCheckClient" where
  "IsValidContraction c contraction =
     (let (ready, c1) =
            (if IsInitialized (contraction_iterator c) then (True, c)
             else (let (ok, it) = Initialize (contraction_iterator c) (character_attributes c) False
                   in (ok, c\<lparr>contraction_iterator := it\<rparr>)))
      in if \<not> ready then (True, c1)
         else IsValidContraction_loop
                (c1\<lparr>contraction_iterator := SetText (contraction_iterator c1) contraction\<rparr>))"

lemma IsValidContraction_loop_frame:
  "IsValidContraction_loop c = (b, c') \<Longrightarrow>
     text_iterator c' = text_iterator c \<and> character_attributes c' = character_attributes c \<and>
     provider c' = provider c \<and> spell_check c' = spell_check c"
proof (induction c rule: IsValidContraction_loop.induct)
  case (1 c)
  show ?case
  proof (cases "GetNextWord (contraction_iterator c)")
    case (Pair x it)
    show ?thesis
    proof (cases x)
      case None
      with Pair "1.prems" show ?thesis by (auto simp: IsValidContraction_loop.simps [of c])
    next
      case (Some a)
      obtain word word_start word_length where a: "a = (word, word_start, word_length)"
        by (cases a) auto
      obtain ok c1 where ck: "CheckSpelling (c\<lparr>contraction_iterator := it\<rparr>) word = (ok, c1)"
        by (cases "CheckSpelling (c\<lparr>contraction_iterator := it\<rparr>) word") auto
      from CheckSpelling_frame [OF ck]
      have t1: "text_iterator c1 = text_iterator c \<and> character_attributes c1 = character_attributes c \<and>
        provider c1 = provider c \<and> spell_check c1 = spell_check c" by auto
      show ?thesis
      proof (cases ok)
        case False
        with Pair Some a ck "1.prems" t1 show ?thesis
          by (auto simp: IsValidContraction_loop.simps [of c])
      next
        case True
        with Pair Some a ck "1.prems" have "IsValidContraction_loop c1 = (b, c')"
          by (simp add: IsValidContraction_loop.simps [of c])
        with "1.IH" [OF Pair [symmetric] Some, of word "(word_start, word_length)" word_start
            word_length "(ok, c1)" ok c1] a ck True t1
        show ?thesis by simp
      qed
    qed
  qed
qed

lemma IsValidContraction_frame:
  "IsValidContraction c w = (b, c') \<Longrightarrow>
     text_iterator c' = text_iterator c \<and> character_attributes c' = character_attributes c \<and>
     provider c' = provider c \<and> spell_check c' = spell_check c"
  by (auto simp: IsValidContraction_def Let_def Initialize_def
      split: if_splits prod.splits dest: IsValidContraction_loop_frame)

subsection \<open>spellCheck (lines 69 to 104)\<close>

text \<open>
  The two \<^verbatim>\<open>int&\<close> parameters \<^verbatim>\<open>misspelling_start\<close> and \<^verbatim>\<open>misspelling_len\<close> are a pair
  that goes in with the caller's values and comes out with the values at return; a call
  that does not write them returns the pair it was given.  \<^verbatim>\<open>optional_suggestions\<close> is
  never read or written and is left out.  The loop of lines 89 to 103 ends because each
  round takes one word from the text iterator, which neither \<open>CheckSpelling\<close> nor
  \<open>IsValidContraction\<close> touches.
\<close>

function spellCheck_loop :: "'w SpellCheckClient \<Rightarrow> int \<times> int \<Rightarrow> (int \<times> int) \<times> 'w SpellCheckClient" where
  "spellCheck_loop c (misspelling_start, misspelling_len) =
     (case GetNextWord (text_iterator c) of
        (None, it) \<Rightarrow> ((misspelling_start, misspelling_len), c\<lparr>text_iterator := it\<rparr>)
      | (Some (word, word_start, word_length), it) \<Rightarrow>
          (let (ok, c1) = CheckSpelling (c\<lparr>text_iterator := it\<rparr>) word in
           if ok then spellCheck_loop c1 (misspelling_start, misspelling_len)
           else
             (let (valid, c2) = IsValidContraction c1 word in
              if valid then spellCheck_loop c2 (misspelling_start, misspelling_len)
              else ((word_start, word_length), c2))))"
  by pat_completeness auto
termination
proof (relation "measure (\<lambda>(c, slots). length (remaining (text_iterator c)))")
  show "wf (measure (\<lambda>(c :: 'w SpellCheckClient, slots :: int \<times> int). length (remaining (text_iterator c))))" by simp
next
  fix c :: "'w SpellCheckClient" and misspelling_start misspelling_len :: int
    and x it a word y word_start word_length xa ok c1
  assume g: "(x, it) = GetNextWord (text_iterator c)" "x = Some a"
    and ck: "xa = CheckSpelling (c\<lparr>text_iterator := it\<rparr>) word" "(ok, c1) = xa"
  from g have lt: "length (remaining it) < length (remaining (text_iterator c))"
    by (auto simp: GetNextWord_def split: list.splits)
  from ck CheckSpelling_frame [of "c\<lparr>text_iterator := it\<rparr>" word ok c1]
  have t1: "text_iterator c1 = it" by auto
  with lt show "((c1, misspelling_start, misspelling_len), c, misspelling_start, misspelling_len)
       \<in> measure (\<lambda>(c, slots). length (remaining (text_iterator c)))"
    by simp
  fix xb valid c2
  assume "xb = IsValidContraction c1 word" "(valid, c2) = xb"
  then have "text_iterator c2 = text_iterator c1"
    using IsValidContraction_frame [of c1 word valid c2] by simp
  with lt t1 show "((c2, misspelling_start, misspelling_len), c, misspelling_start, misspelling_len)
       \<in> measure (\<lambda>(c, slots). length (remaining (text_iterator c)))"
    by simp
qed

declare spellCheck_loop.simps [simp del]

definition spellCheck ::
  "'w SpellCheckClient \<Rightarrow> WebString \<Rightarrow> int \<times> int \<Rightarrow> (int \<times> int) \<times> 'w SpellCheckClient" where
  "spellCheck c text slots =
     (if WebString_length text = 0 \<or> spell_check c = None then (slots, c)
      else
        (let (ready, c1) =
               (if IsInitialized (text_iterator c) then (True, c)
                else (let (ok, it) = Initialize (text_iterator c) (character_attributes c) True
                      in (ok, c\<lparr>text_iterator := it\<rparr>)))
         in if \<not> ready then (slots, c1)
            else
              (let in_word = to_string16 text
               in spellCheck_loop (c1\<lparr>text_iterator := SetText (text_iterator c1) in_word\<rparr>) slots)))"

section \<open>The words of the specification\<close>

subsection \<open>Code points of a UTF-16 text\<close>

text \<open>
  The specification of \<open>HasWordCharacters\<close> speaks of the code points of a text, "decoding
  each as a full code point".  This is the decoding of the Unicode standard, written
  without reference to the code: a lead surrogate (D800 to DBFF) followed by a trail
  surrogate (DC00 to DFFF) is one supplementary code point, every other code unit is a
  code point by itself.
\<close>

definition is_lead_surrogate :: "char16 \<Rightarrow> bool" where
  "is_lead_surrogate u = (0xD800 \<le> u \<and> u \<le> 0xDBFF)"

definition is_trail_surrogate :: "char16 \<Rightarrow> bool" where
  "is_trail_surrogate u = (0xDC00 \<le> u \<and> u \<le> 0xDFFF)"

definition supplementary :: "char16 \<Rightarrow> char16 \<Rightarrow> uint32" where
  "supplementary u v = 0x10000 + (ucast u - 0xD800) * 0x400 + (ucast v - 0xDC00)"

fun code_points :: "string16 \<Rightarrow> uint32 list" where
  "code_points [] = []"
| "code_points [u] = [ucast u]"
| "code_points (u # v # rest) =
     (if is_lead_surrogate u \<and> is_trail_surrogate v
      then supplementary u v # code_points rest
      else ucast u # code_points (v # rest))"

subsection \<open>Words, sub-words and the checker's answers\<close>

text \<open>
  The specification of \<open>spellCheck\<close> and \<open>IsValidContraction\<close> speaks of the words a
  text is segmented into, of a word the checker accepts or rejects, and of the order in
  which the words are put to the checker.  The checker may answer differently as its
  state changes, so a word is accepted or rejected in the state in which it is asked.
  In these terms:
  \<^item> \<open>accepted_in c h word\<close>: the checker of client \<open>c\<close>, asked in state \<open>h\<close> of the
    isolate, answers that \<open>word\<close> is correctly spelled; \<open>asked c h word\<close> is the state
    of the isolate after that query;
  \<^item> \<open>first_failure ok after h xs\<close>: the elements of \<open>xs\<close> are taken in order from
    state \<open>h\<close>, each in the state the ones before it left (\<open>after\<close> gives the state an
    element leaves); the result is the index of the first element that is not \<open>ok\<close> in
    its state, \<open>None\<close> when every element is \<open>ok\<close>;
  \<^item> \<open>examined xs failure\<close>: the elements gone through, that is all of them, or those
    up to and including the one at the index \<open>failure\<close>;
  \<^item> \<open>rules\<close>: the break rules an iterator works with, its own once initialized, else
    those its initialization opens, if it opens any;
  \<^item> \<open>words_of c text\<close> and \<open>sub_words c word\<close>: the words of a text and the
    sub-words of a word under these rules; an empty text has no words;
  \<^item> \<open>first_rejected c h ss\<close>: the index of the first of the sub-words \<open>ss\<close> that the
    checker rejects;
  \<^item> \<open>passes_in c h w\<close>: examined in state \<open>h\<close>, the word \<open>w\<close> is accepted, or it is
    rejected and then none of its sub-words is; \<open>after_word c h w\<close> is the state after
    that examination;
  \<^item> \<open>first_misspelling c h ws\<close>: the index of the first of the words \<open>ws\<close> that does
    not pass.
\<close>

definition accepted_in :: "'w SpellCheckClient \<Rightarrow> 'w \<Rightarrow> string16 \<Rightarrow> bool" where
  "accepted_in c h word = fst (CheckSpelling (c\<lparr>isolate := h\<rparr>) word)"

definition asked :: "'w SpellCheckClient \<Rightarrow> 'w \<Rightarrow> string16 \<Rightarrow> 'w" where
  "asked c h word = isolate (snd (CheckSpelling (c\<lparr>isolate := h\<rparr>) word))"

definition first_failure ::
  "('w \<Rightarrow> 'a \<Rightarrow> bool) \<Rightarrow> ('w \<Rightarrow> 'a \<Rightarrow> 'w) \<Rightarrow> 'w \<Rightarrow> 'a list \<Rightarrow> nat option" where
  "first_failure ok after h xs =
     find (\<lambda>k. \<not> ok (foldl after h (take k xs)) (xs ! k)) [0..<length xs]"

definition examined :: "'a list \<Rightarrow> nat option \<Rightarrow> 'a list" where
  "examined xs failure = (case failure of None \<Rightarrow> xs | Some k \<Rightarrow> take (Suc k) xs)"

definition rules :: "SpellcheckWordIterator \<Rightarrow> SpellcheckCharAttribute \<Rightarrow> bool
    \<Rightarrow> (string16 \<Rightarrow> word_span list) option" where
  "rules it attribute allow_contraction =
     (if IsInitialized it then iterator it
      else if opens attribute allow_contraction then Some (breaks attribute allow_contraction)
      else None)"

definition sub_words :: "'w SpellCheckClient \<Rightarrow> string16 \<Rightarrow> string16 list" where
  "sub_words c word =
     (case rules (contraction_iterator c) (character_attributes c) False of
        None \<Rightarrow> []
      | Some split \<Rightarrow> map fst (split word))"

definition words_of :: "'w SpellCheckClient \<Rightarrow> WebString \<Rightarrow> word_span list" where
  "words_of c text =
     (if WebString_length text = 0 then []
      else case rules (text_iterator c) (character_attributes c) True of
             None \<Rightarrow> []
           | Some split \<Rightarrow> split (to_string16 text))"

definition first_rejected :: "'w SpellCheckClient \<Rightarrow> 'w \<Rightarrow> string16 list \<Rightarrow> nat option" where
  "first_rejected c h ss = first_failure (accepted_in c) (asked c) h ss"

definition passes_in :: "'w SpellCheckClient \<Rightarrow> 'w \<Rightarrow> word_span \<Rightarrow> bool" where
  "passes_in c h w =
     (accepted_in c h (fst w) \<or>
      first_rejected c (asked c h (fst w)) (sub_words c (fst w)) = None)"

definition after_word :: "'w SpellCheckClient \<Rightarrow> 'w \<Rightarrow> word_span \<Rightarrow> 'w" where
  "after_word c h w =
     (if accepted_in c h (fst w) then asked c h (fst w)
      else foldl (asked c) (asked c h (fst w))
             (examined (sub_words c (fst w))
                (first_rejected c (asked c h (fst w)) (sub_words c (fst w)))))"

definition first_misspelling :: "'w SpellCheckClient \<Rightarrow> 'w \<Rightarrow> word_span list \<Rightarrow> nat option" where
  "first_misspelling c h ws = first_failure (passes_in c) (after_word c) h ws"

section \<open>Test doubles\<close>

text \<open>
  Concrete values on which the definitions are run: ASCII texts as UTF-16, a profile that
  breaks a text at spaces (and, for contractions, at apostrophes too), a checker that
  answers from a list of known words and records in the state of the isolate every word
  it is asked, two checkers whose answer depends on that record (one accepts a word it
  has been asked before, the other a word it is asked for the first time), a provider
  with both methods that records the method called, and a script lookup that knows the
  ASCII letters (Latin) and the supplementary code points.
\<close>

definition utf16 :: "string \<Rightarrow> string16" where
  "utf16 s = map (\<lambda>ch. of_nat (of_char ch)) s"

fun spans :: "(char16 \<Rightarrow> bool) \<Rightarrow> string16 \<Rightarrow> int \<Rightarrow> string16 \<Rightarrow> word_span list" where
  "spans sep [] pos cur =
     (if cur = [] then [] else [(cur, pos - int (length cur), int (length cur))])"
| "spans sep (u # us) pos cur =
     (if sep u
      then (if cur = [] then [] else [(cur, pos - int (length cur), int (length cur))])
             @ spans sep us (pos + 1) []
      else spans sep us (pos + 1) (cur @ [u]))"

definition example_attributes :: SpellcheckCharAttribute where
  "example_attributes =
     \<lparr>opens = (\<lambda>allow_contraction. True),
      breaks = (\<lambda>allow_contraction text.
                  if allow_contraction then spans (\<lambda>u. u = 0x20) text 0 []
                  else spans (\<lambda>u. u = 0x20 \<or> u = 0x27) text 0 [])\<rparr>"

definition closed_iterator :: SpellcheckWordIterator where
  "closed_iterator = \<lparr>iterator = None, remaining = []\<rparr>"

definition recording :: "(string16 \<Rightarrow> js_value) \<Rightarrow> string16 list js_function" where
  "recording verdict word log = (verdict word, log @ [word])"

definition seen_before :: "string16 list js_function" where
  "seen_before word log = (JSBoolean (word \<in> set log), log @ [word])"

definition first_time :: "string16 list js_function" where
  "first_time word log = (JSBoolean (word \<notin> set log), log @ [word])"

definition example_provider :: "string16 list js_provider" where
  "example_provider =
     \<lparr>Has = (\<lambda>method h. method = ''requestCheckingOfText'' \<or> method = ''autoCorrectWord''),
      MakeCallback = (\<lambda>method text h.
        (if method = ''autoCorrectWord'' then JSString (text @ utf16 ''s'')
         else JSArray [JSObject [(''location'', JSNumber 0), (''length'', JSNumber 3)]],
         h @ [utf16 method]))\<rparr>"

definition example_client :: "string16 list \<Rightarrow> string16 list SpellCheckClient" where
  "example_client dictionary =
     \<lparr>character_attributes = example_attributes,
      text_iterator = closed_iterator,
      contraction_iterator = closed_iterator,
      isolate = [],
      provider = example_provider,
      spell_check = Some (recording (\<lambda>word. JSBoolean (word \<in> set dictionary)))\<rparr>"

definition example_getScript :: "uint32 \<Rightarrow> UScriptCode" where
  "example_getScript code =
     (if (0x41 \<le> code \<and> code \<le> 0x5A) \<or> (0x61 \<le> code \<and> code \<le> 0x7A) then 25
      else if 0x10000 \<le> code then 17
      else USCRIPT_COMMON)"


section \<open>Properties\<close>

subsection \<open>Surrogates and decoding\<close>

lemma m10: "(0xFFFFFC00 :: uint32) = NOT (mask 10)"
  by (simp add: mask_eq_exp_minus_1)

lemma and_not_mask10: "(x :: uint32) AND NOT (mask 10) = push_bit 10 (drop_bit 10 x)"
  by (rule bit_eqI) (auto simp: bit_simps)

lemma unat_ucast_16_32: "unat (ucast (u :: char16) :: uint32) = unat u"
proof -
  have "unat u < 2 ^ 16" using unsigned_less [of u] by simp
  then have "unat u < 2 ^ 32" by simp
  then show ?thesis by (simp add: unsigned_ucast_eq take_bit_nat_eq_self)
qed

lemma unat_high: "unat ((x :: uint32) AND 0xFFFFFC00) = (unat x div 1024) * 1024"
proof -
  have lt: "unat x < 2 ^ 32" using unsigned_less [of x] by simp
  have le: "unat x div 1024 * 1024 \<le> unat x" by simp
  have d: "unat x div 1024 mod 4294967296 = unat x div 1024" using lt by simp
  have u: "unat (drop_bit 10 x) = unat x div 1024"
    by (simp only: unat_drop_bit_eq) (simp add: drop_bit_eq_div)
  have "unat (push_bit 10 (drop_bit 10 x)) = (unat (drop_bit 10 x) * 1024) mod 2 ^ 32"
    by (simp only: push_bit_eq_mult unat_word_ariths) simp
  also have "\<dots> = unat x div 1024 * 1024"
    using lt le by (simp only: u) simp
  finally show ?thesis by (simp only: m10 and_not_mask10)
qed

lemma U16_IS_LEAD_iff: "U16_IS_LEAD (ucast u) = is_lead_surrogate u"
proof -
  have "U16_IS_LEAD (ucast u) \<longleftrightarrow> unat ((ucast u :: uint32) AND 0xFFFFFC00) = unat (0xD800 :: uint32)"
    unfolding U16_IS_LEAD_def by (simp only: word_unat_eq_iff)
  also have "\<dots> \<longleftrightarrow> unat u div 1024 * 1024 = 55296"
    by (simp only: unat_high unat_ucast_16_32) simp
  also have "\<dots> \<longleftrightarrow> unat u div 1024 = 54"
    by auto
  also have "\<dots> \<longleftrightarrow> 54 * 1024 \<le> unat u \<and> unat u < 55 * 1024"
    using div_nat_eqI [of 54 1024 "unat u"] by (auto simp: less_mult_imp_div_less  div_le_mono)
  also have "\<dots> \<longleftrightarrow> is_lead_surrogate u"
    by (auto simp: is_lead_surrogate_def word_le_nat_alt)
  finally show ?thesis .
qed

lemma U16_IS_TRAIL_iff: "U16_IS_TRAIL (ucast u) = is_trail_surrogate u"
proof -
  have "U16_IS_TRAIL (ucast u) \<longleftrightarrow> unat ((ucast u :: uint32) AND 0xFFFFFC00) = unat (0xDC00 :: uint32)"
    unfolding U16_IS_TRAIL_def by (simp only: word_unat_eq_iff)
  also have "\<dots> \<longleftrightarrow> unat u div 1024 * 1024 = 56320"
    by (simp only: unat_high unat_ucast_16_32) simp
  also have "\<dots> \<longleftrightarrow> unat u div 1024 = 55"
    by auto
  also have "\<dots> \<longleftrightarrow> 55 * 1024 \<le> unat u \<and> unat u < 56 * 1024"
    using div_nat_eqI [of 55 1024 "unat u"] by (auto simp: less_mult_imp_div_less  div_le_mono)
  also have "\<dots> \<longleftrightarrow> is_trail_surrogate u"
    by (auto simp: is_trail_surrogate_def word_le_nat_alt)
  finally show ?thesis .
qed

lemma U16_GET_SUPPLEMENTARY_eq: "U16_GET_SUPPLEMENTARY (ucast u) (ucast v) = supplementary u v"
  by (simp add: U16_GET_SUPPLEMENTARY_def supplementary_def U16_SURROGATE_OFFSET_def
      push_bit_eq_mult algebra_simps)

lemma U16_NEXT_decode:
  assumes "i < length text"
  shows "\<exists>cp j. U16_NEXT text (int i) (int (length text)) = Inr (cp, int j) \<and> i < j \<and>
           j \<le> length text \<and> code_points (drop i text) = cp # code_points (drop j text)"
proof -
  from assms obtain u rest where d: "drop i text = u # rest" and u: "text ! i = u"
    by (metis Cons_nth_drop_Suc)
  have r: "rest = drop (Suc i) text" using d by (metis drop_Suc tl_drop list.sel(3))
  have rd: "read16 text (int i) = Inr u" using assms u by (simp add: read16_def)
  show ?thesis
  proof (cases "is_lead_surrogate u \<and> rest \<noteq> [] \<and> is_trail_surrogate (hd rest)")
    case True
    then obtain v rest' where rest: "rest = v # rest'" and v: "is_trail_surrogate v"
      by (cases rest) auto
    from rest r have len: "Suc i < length text" by (metis drop_eq_Nil2 list.distinct(1) not_le)
    from rest r have vi: "text ! Suc i = v" by (metis len hd_drop_conv_nth list.sel(1))
    from rest r have r': "rest' = drop (Suc (Suc i)) text" by (metis drop_Suc tl_drop list.sel(3))
    have rd2: "read16 text (int i + 1) = Inr v" using len vi by (simp add: read16_def nat_add_distrib)
    have ne: "int i + 1 \<noteq> int (length text)" using len by simp
    have "U16_NEXT text (int i) (int (length text)) = Inr (supplementary u v, int (Suc (Suc i)))"
      using True v rd rd2 ne
      by (simp add: U16_NEXT_def Let_def U16_IS_LEAD_iff U16_IS_TRAIL_iff U16_GET_SUPPLEMENTARY_eq)
    moreover have "code_points (drop i text) = supplementary u v # code_points (drop (Suc (Suc i)) text)"
      using d rest r' True v by simp
    ultimately show ?thesis using len by (intro exI [of _ "supplementary u v"] exI [of _ "Suc (Suc i)"]) simp
  next
    case False
    have "U16_NEXT text (int i) (int (length text)) = Inr (ucast u, int (Suc i))"
    proof (cases "is_lead_surrogate u")
      case nl: False
      then show ?thesis using rd by (simp add: U16_NEXT_def Let_def U16_IS_LEAD_iff)
    next
      case l: True
      show ?thesis
      proof (cases rest)
        case Nil
        with r have "length text = Suc i" using assms by (metis drop_eq_Nil2 le_antisym Suc_leI)
        then show ?thesis using rd l by (simp add: U16_NEXT_def Let_def U16_IS_LEAD_iff)
      next
        case (Cons v rest')
        with r have len: "Suc i < length text" by (metis drop_eq_Nil2 list.distinct(1) not_le)
        from Cons r have vi: "text ! Suc i = v" by (metis len hd_drop_conv_nth list.sel(1))
        have rd2: "read16 text (int i + 1) = Inr v" using len vi by (simp add: read16_def nat_add_distrib)
        have ne: "int i + 1 \<noteq> int (length text)" using len by simp
        from False l Cons have "\<not> is_trail_surrogate v" by simp
        then show ?thesis using rd rd2 l ne
          by (simp add: U16_NEXT_def Let_def U16_IS_LEAD_iff U16_IS_TRAIL_iff)
      qed
    qed
    moreover have "code_points (drop i text) = ucast u # code_points (drop (Suc i) text)"
    proof -
      have "code_points (u # rest) = ucast u # code_points rest"
        using False by (cases rest) auto
      then show ?thesis unfolding d r .
    qed
    ultimately show ?thesis using assms by (intro exI [of _ "ucast u"] exI [of _ "Suc i"]) simp
  qed
qed

lemma HasWordCharacters_decode:
  "HasWordCharacters g text (int i) =
     Inr (\<exists>cp \<in> set (code_points (drop i text)). g cp \<noteq> USCRIPT_COMMON)"
proof (induction "length text - i" arbitrary: i rule: less_induct)
  case less
  show ?case
  proof (cases "i < length text")
    case False
    then show ?thesis by (simp add: HasWordCharacters.simps [of g "text" "int i"])
  next
    case True
    from U16_NEXT_decode [OF True] obtain cp j where
      n: "U16_NEXT text (int i) (int (length text)) = Inr (cp, int j)" and ij: "i < j"
      and jl: "j \<le> length text" and cps: "code_points (drop i text) = cp # code_points (drop j text)"
      by blast
    from ij True have "length text - j < length text - i" by simp
    from less [OF this] have ih: "HasWordCharacters g text (int j) =
      Inr (\<exists>cp \<in> set (code_points (drop j text)). g cp \<noteq> USCRIPT_COMMON)" .
    show ?thesis
      using True n ih cps by (simp add: HasWordCharacters.simps [of g "text" "int i"])
  qed
qed


lemma HasWordCharacters_returns: "\<exists>b. HasWordCharacters g text 0 = Inr b"
  using HasWordCharacters_decode [of g "text" 0] by simp

subsection \<open>The completion protocol\<close>

text \<open>
  C1.  One call of \<open>requestCheckingOfText\<close> tells the completion callback exactly one
  thing: whatever the text, the markers, the client and the state of the provider, the
  call returns (no fault), and the callback has then received the signals it had before
  followed by one more, which is either \<open>didCancelCheckingText\<close> or
  \<open>didFinishCheckingText\<close> with a result.  The client keeps no reference to the callback,
  so nothing can be signalled after the call.
\<close>

theorem requestCheckingOfText_signals_once:
  "\<exists>s c'. requestCheckingOfText uscript_getScript c textToCheck markersInText markerOffsets
             completionCallback = Inr (completionCallback @ [s], c') \<and>
          (s = didCancelCheckingText \<or> (\<exists>result. s = didFinishCheckingText result))"
proof -
  obtain b where b: "HasWordCharacters uscript_getScript (to_string16 textToCheck) 0 = Inr b"
    using HasWordCharacters_returns by blast
  obtain r c1 where r: "CallProviderMethod (FromV8_array FromV8_WebTextCheckingResult) c
       ''requestCheckingOfText'' textToCheck = (r, c1)"
    by (cases "CallProviderMethod (FromV8_array FromV8_WebTextCheckingResult) c
       ''requestCheckingOfText'' textToCheck") auto
  show ?thesis
    using b r by (cases r) (auto simp: requestCheckingOfText_def signal_def Let_def)
qed

theorem requestCheckingOfText_signals_once_witness:
  "(\<exists>s c'. requestCheckingOfText example_getScript (example_client []) (Some (utf16 ''teh cat''))
       [1, 2] [0, 4] [] = Inr ([s], c')) \<and>
   map_sum id fst (requestCheckingOfText example_getScript (example_client [])
       (Some (utf16 ''teh cat'')) [1, 2] [0, 4] [])
     = Inr [didFinishCheckingText [\<lparr>location = 0, length_of = 3\<rparr>]]"
proof -
  have "map_sum id fst (requestCheckingOfText example_getScript (example_client [])
       (Some (utf16 ''teh cat'')) [1, 2] [0, 4] [])
     = Inr [didFinishCheckingText [\<lparr>location = 0, length_of = 3\<rparr>]]"
    by code_simp
  moreover from requestCheckingOfText_signals_once [of example_getScript "example_client []"
      "Some (utf16 ''teh cat'')" "[1, 2]" "[0, 4]" "[]"]
  have "\<exists>s c'. requestCheckingOfText example_getScript (example_client []) (Some (utf16 ''teh cat''))
       [1, 2] [0, 4] [] = Inr ([s], c')"
    by auto
  ultimately show ?thesis by simp
qed

text \<open>
  C5.  A text that is empty, or in which \<open>HasWordCharacters\<close> finds no word-bearing
  character, is cancelled at once: the callback receives \<open>didCancelCheckingText\<close> and the
  client comes back as it was, the state of the isolate included.  This holds for every
  provider, in particular for one that changes the state whenever a method of it is
  called, so no method of the provider was called.
\<close>

theorem requestCheckingOfText_cancels_without_words:
  assumes "to_string16 textToCheck = [] \<or>
           HasWordCharacters uscript_getScript (to_string16 textToCheck) 0 = Inr False"
  shows "requestCheckingOfText uscript_getScript c textToCheck markersInText markerOffsets
           completionCallback = Inr (completionCallback @ [didCancelCheckingText], c)"
  using assms by (auto simp: requestCheckingOfText_def signal_def Let_def)

theorem requestCheckingOfText_cancels_without_words_witness:
  "HasWordCharacters example_getScript (to_string16 (Some (utf16 ''12, 3?''))) 0 = Inr False \<and>
   requestCheckingOfText example_getScript (example_client []) (Some (utf16 ''12, 3?'')) [] [] []
     = Inr ([didCancelCheckingText], example_client []) \<and>
   isolate (example_client []) = [] \<and>
   requestCheckingOfText example_getScript (example_client []) None [] [] []
     = Inr ([didCancelCheckingText], example_client [])"
proof -
  have h: "HasWordCharacters example_getScript (to_string16 (Some (utf16 ''12, 3?''))) 0 = Inr False"
    by code_simp
  have e: "to_string16 None = ([] :: string16)" by (simp add: to_string16_def)
  show ?thesis
    using h requestCheckingOfText_cancels_without_words [of "Some (utf16 ''12, 3?'')"
        example_getScript "example_client []" "[]" "[]" "[]"]
      requestCheckingOfText_cancels_without_words [of None example_getScript "example_client []" "[]" "[]" "[]"] e
    by (simp add: example_client_def)
qed

text \<open>
  C10.  The two marker arguments of \<open>requestCheckingOfText\<close> are never read: two calls
  that differ in them only have the same outcome, signal, result sequence and client.
\<close>

theorem requestCheckingOfText_ignores_markers:
  "requestCheckingOfText uscript_getScript c textToCheck markersInText markerOffsets completionCallback
     = requestCheckingOfText uscript_getScript c textToCheck markersInText' markerOffsets' completionCallback"
  by (simp add: requestCheckingOfText_def)

theorem requestCheckingOfText_ignores_markers_witness:
  "requestCheckingOfText example_getScript (example_client []) (Some (utf16 ''teh'')) [7, 8] [0, 1] []
     = requestCheckingOfText example_getScript (example_client []) (Some (utf16 ''teh'')) [] [5] []"
  using requestCheckingOfText_ignores_markers [of example_getScript "example_client []"
      "Some (utf16 ''teh'')" "[7, 8]" "[0, 1]" "[]" "[]" "[5]"]
  by simp

subsection \<open>Queries to the checker\<close>

text \<open>
  C6.  \<open>CheckSpelling\<close> answers true, and asks nobody, when the handle to the checker is
  empty.  When the handle is bound it calls the function once; a boolean result is the
  answer, and any other result is answered true.
\<close>

theorem CheckSpelling_fails_open:
  "(spell_check c = None \<longrightarrow> CheckSpelling c word = (True, c)) \<and>
   (spell_check c = Some f \<and> f word (isolate c) = (JSBoolean b, h) \<longrightarrow>
      CheckSpelling c word = (b, c\<lparr>isolate := h\<rparr>)) \<and>
   (spell_check c = Some f \<and> f word (isolate c) = (result, h) \<and> (\<forall>b. result \<noteq> JSBoolean b) \<longrightarrow>
      CheckSpelling c word = (True, c\<lparr>isolate := h\<rparr>))"
  by (auto simp: CheckSpelling_def Let_def split: js_value.splits)

theorem CheckSpelling_fails_open_witness:
  "CheckSpelling ((example_client []) \<lparr>spell_check := None\<rparr>) (utf16 ''teh'')
     = (True, (example_client []) \<lparr>spell_check := None\<rparr>) \<and>
   CheckSpelling (example_client [utf16 ''the'']) (utf16 ''teh'')
     = (False, (example_client [utf16 ''the'']) \<lparr>isolate := [utf16 ''teh'']\<rparr>) \<and>
   CheckSpelling (example_client [utf16 ''the'']) (utf16 ''the'')
     = (True, (example_client [utf16 ''the'']) \<lparr>isolate := [utf16 ''the'']\<rparr>) \<and>
   CheckSpelling ((example_client []) \<lparr>spell_check := Some (recording (\<lambda>w. JSString w))\<rparr>) (utf16 ''teh'')
     = (True, (example_client []) \<lparr>spell_check := Some (recording (\<lambda>w. JSString w)), isolate := [utf16 ''teh'']\<rparr>)"
proof -
  let ?bound = "recording (\<lambda>word. JSBoolean (word \<in> set [utf16 ''the'']))"
  let ?odd = "recording (\<lambda>w. JSString w) :: string16 list js_function"
  have 1: "spell_check ((example_client []) \<lparr>spell_check := None\<rparr>) = None"
    by simp
  have 2: "spell_check (example_client [utf16 ''the'']) = Some ?bound \<and>
      ?bound (utf16 ''teh'') (isolate (example_client [utf16 ''the''])) = (JSBoolean False, [utf16 ''teh''])"
    by (simp add: example_client_def recording_def utf16_def)
  have 3: "spell_check (example_client [utf16 ''the'']) = Some ?bound \<and>
      ?bound (utf16 ''the'') (isolate (example_client [utf16 ''the''])) = (JSBoolean True, [utf16 ''the''])"
    by (simp add: example_client_def recording_def utf16_def)
  have 4: "spell_check ((example_client []) \<lparr>spell_check := Some ?odd\<rparr>) = Some ?odd \<and>
      ?odd (utf16 ''teh'') (isolate ((example_client []) \<lparr>spell_check := Some ?odd\<rparr>))
        = (JSString (utf16 ''teh''), [utf16 ''teh'']) \<and> (\<forall>b. JSString (utf16 ''teh'') \<noteq> JSBoolean b)"
    by (simp add: example_client_def recording_def)
  from 1 2 3 4
    CheckSpelling_fails_open [where c = "(example_client []) \<lparr>spell_check := None\<rparr>"
      and word = "utf16 ''teh''"]
    CheckSpelling_fails_open [where c = "example_client [utf16 ''the'']" and f = ?bound
      and word = "utf16 ''teh''" and b = False and h = "[utf16 ''teh'']"]
    CheckSpelling_fails_open [where c = "example_client [utf16 ''the'']" and f = ?bound
      and word = "utf16 ''the''" and b = True and h = "[utf16 ''the'']"]
    CheckSpelling_fails_open [where c = "(example_client []) \<lparr>spell_check := Some ?odd\<rparr>"
      and f = ?odd and word = "utf16 ''teh''" and h = "[utf16 ''teh'']"
      and result = "JSString (utf16 ''teh'')"]
  show ?thesis by (simp add: example_client_def)
qed


text \<open>
  C8.  \<open>autoCorrectWord\<close> returns the provider's suggestion as it is: when the provider
  has the method \<^verbatim>\<open>autoCorrectWord\<close> and the call gives a string, that string comes back,
  code unit for code unit.  When the provider lacks the method, the null string comes
  back and nothing was called; when the call gives anything but a string, the null string
  comes back.
\<close>

theorem autoCorrectWord_verbatim:
  "(Has (provider c) ''autoCorrectWord'' (isolate c) \<and>
    MakeCallback (provider c) ''autoCorrectWord'' (to_string16 misspelledWord) (isolate c)
      = (JSString suggestion, h) \<longrightarrow>
      autoCorrectWord c misspelledWord = (Some suggestion, c\<lparr>isolate := h\<rparr>)) \<and>
   (\<not> Has (provider c) ''autoCorrectWord'' (isolate c) \<longrightarrow>
      autoCorrectWord c misspelledWord = (None, c)) \<and>
   (Has (provider c) ''autoCorrectWord'' (isolate c) \<and>
    MakeCallback (provider c) ''autoCorrectWord'' (to_string16 misspelledWord) (isolate c)
      = (result, h) \<and> (\<forall>s. result \<noteq> JSString s) \<longrightarrow>
      autoCorrectWord c misspelledWord = (None, c\<lparr>isolate := h\<rparr>))"
  by (auto simp: autoCorrectWord_def CallProviderMethod_def FromV8_string16_def Let_def
      split: js_value.splits)

theorem autoCorrectWord_verbatim_witness:
  "autoCorrectWord (example_client []) (Some (utf16 ''cat''))
     = (Some (utf16 ''cats''), (example_client []) \<lparr>isolate := [utf16 ''autoCorrectWord'']\<rparr>) \<and>
   autoCorrectWord ((example_client []) \<lparr>provider := example_provider \<lparr>Has := \<lambda>m h. False\<rparr>\<rparr>)
       (Some (utf16 ''cat''))
     = (None, (example_client []) \<lparr>provider := example_provider \<lparr>Has := \<lambda>m h. False\<rparr>\<rparr>) \<and>
   autoCorrectWord ((example_client [])
         \<lparr>provider := example_provider \<lparr>MakeCallback := \<lambda>m t h. (JSNumber 7, h @ [t])\<rparr>\<rparr>)
       (Some (utf16 ''cat''))
     = (None, (example_client [])
         \<lparr>provider := example_provider \<lparr>MakeCallback := \<lambda>m t h. (JSNumber 7, h @ [t])\<rparr>,
          isolate := [utf16 ''cat'']\<rparr>)"
proof -
  let ?c1 = "example_client []"
  let ?c2 = "(example_client []) \<lparr>provider := example_provider \<lparr>Has := \<lambda>m h. False\<rparr>\<rparr>"
  let ?c3 = "(example_client [])
         \<lparr>provider := example_provider \<lparr>MakeCallback := \<lambda>m t h. (JSNumber 7, h @ [t])\<rparr>\<rparr>"
  have 1: "Has (provider ?c1) ''autoCorrectWord'' (isolate ?c1) \<and>
      MakeCallback (provider ?c1) ''autoCorrectWord'' (to_string16 (Some (utf16 ''cat''))) (isolate ?c1)
        = (JSString (utf16 ''cats''), [utf16 ''autoCorrectWord''])"
    by (simp add: example_client_def example_provider_def to_string16_def utf16_def)
  have 2: "\<not> Has (provider ?c2) ''autoCorrectWord'' (isolate ?c2)"
    by (simp add: example_client_def example_provider_def)
  have 3: "Has (provider ?c3) ''autoCorrectWord'' (isolate ?c3) \<and>
      MakeCallback (provider ?c3) ''autoCorrectWord'' (to_string16 (Some (utf16 ''cat''))) (isolate ?c3)
        = (JSNumber 7, [utf16 ''cat'']) \<and> (\<forall>s. JSNumber 7 \<noteq> JSString s)"
    by (simp add: example_client_def example_provider_def to_string16_def)
  from 1 2 3
    autoCorrectWord_verbatim [where c = ?c1 and misspelledWord = "Some (utf16 ''cat'')"
      and suggestion = "utf16 ''cats''" and h = "[utf16 ''autoCorrectWord'']"]
    autoCorrectWord_verbatim [where c = ?c2 and misspelledWord = "Some (utf16 ''cat'')"]
    autoCorrectWord_verbatim [where c = ?c3 and misspelledWord = "Some (utf16 ''cat'')"
      and result = "JSNumber 7" and h = "[utf16 ''cat'']"]
  show ?thesis by (simp add: example_client_def)
qed

subsection \<open>The retired paragraph check\<close>

text \<open>
  C9, as the code has it.  \<open>checkTextOfParagraph\<close> ends in the \<^verbatim>\<open>NOTREACHED()\<close> assertion
  exactly when \<^verbatim>\<open>results\<close> is not null and the mask has the spelling bit.  With a null
  \<^verbatim>\<open>results\<close>, or a mask without the spelling bit, the two guards of lines 110 to 114
  return first, and the call changes nothing.
\<close>

theorem checkTextOfParagraph_asserts_behind_guards:
  "(results \<noteq> None \<and> mask' AND WebTextCheckingTypeSpelling \<noteq> 0 \<longrightarrow>
      checkTextOfParagraph c text mask' results
        = Inl (NotReached ''checkTextOfParagraph should never be called'')) \<and>
   (results = None \<or> mask' AND WebTextCheckingTypeSpelling = 0 \<longrightarrow>
      checkTextOfParagraph c text mask' results = Inr (results, c))"
  by (simp add: checkTextOfParagraph_def)

theorem checkTextOfParagraph_asserts_behind_guards_witness:
  "checkTextOfParagraph (example_client []) (Some (utf16 ''teh'')) WebTextCheckingTypeSpelling (Some [])
     = Inl (NotReached ''checkTextOfParagraph should never be called'') \<and>
   checkTextOfParagraph (example_client []) (Some (utf16 ''teh'')) 0 (Some [])
     = Inr (Some [], example_client [])"
proof -
  have 1: "Some ([] :: WebTextCheckingResult list) \<noteq> None \<and>
      WebTextCheckingTypeSpelling AND WebTextCheckingTypeSpelling \<noteq> 0"
    by (simp add: WebTextCheckingTypeSpelling_def)
  have 2: "(0 :: uint32) AND WebTextCheckingTypeSpelling = 0"
    by simp
  from 1 2
    checkTextOfParagraph_asserts_behind_guards [where results = "Some []"
      and mask' = WebTextCheckingTypeSpelling
      and c = "example_client []" and ?text = "Some (utf16 ''teh'')"]
    checkTextOfParagraph_asserts_behind_guards [where results = "Some []" and mask' = 0
      and c = "example_client []" and ?text = "Some (utf16 ''teh'')"]
  show ?thesis by simp
qed

text \<open>
  C9, as the specification has it, fails: a call with a null \<^verbatim>\<open>results\<close>, and a call
  whose mask has no bit set, both return without any assertion.
\<close>

theorem checkTextOfParagraph_returns_silently:
  "checkTextOfParagraph (example_client []) (Some (utf16 ''teh'')) WebTextCheckingTypeSpelling None
     = Inr (None, example_client []) \<and>
   checkTextOfParagraph (example_client []) (Some (utf16 ''teh'')) 0 (Some [])
     = Inr (Some [], example_client [])"
  by (simp add: checkTextOfParagraph_def)

subsection \<open>The single-span check\<close>

text \<open>
  C3.  \<open>spellCheck\<close> leaves the two output slots as the caller set them, and the client
  as it was, when the text is empty (or null), when the handle to the checker is empty,
  or when the text iterator is not initialized and its initialization fails.  The
  function has no way to fail: its result is always a pair of slots and a client.
\<close>

theorem spellCheck_fails_open:
  assumes "WebString_length text = 0 \<or> spell_check c = None \<or>
           (\<not> IsInitialized (text_iterator c) \<and> \<not> opens (character_attributes c) True)"
  shows "spellCheck c text (misspelling_start, misspelling_len)
           = ((misspelling_start, misspelling_len), c)"
  using assms by (auto simp: spellCheck_def Initialize_def Let_def)

theorem spellCheck_fails_open_witness:
  "spellCheck (example_client []) (Some []) (-1, 0) = ((-1, 0), example_client []) \<and>
   spellCheck (example_client []) None (-1, 0) = ((-1, 0), example_client []) \<and>
   spellCheck ((example_client []) \<lparr>spell_check := None\<rparr>) (Some (utf16 ''teh'')) (-1, 0)
     = ((-1, 0), (example_client []) \<lparr>spell_check := None\<rparr>) \<and>
   spellCheck ((example_client []) \<lparr>character_attributes := example_attributes \<lparr>opens := \<lambda>a. False\<rparr>\<rparr>)
       (Some (utf16 ''teh'')) (-1, 0)
     = ((-1, 0), (example_client []) \<lparr>character_attributes := example_attributes \<lparr>opens := \<lambda>a. False\<rparr>\<rparr>)"
proof -
  let ?c4 = "(example_client []) \<lparr>character_attributes := example_attributes \<lparr>opens := \<lambda>a. False\<rparr>\<rparr>"
  have 1: "WebString_length (Some ([] :: string16)) = 0" "WebString_length (None :: WebString) = 0"
    by (simp_all add: WebString_length_def)
  have 3: "spell_check ((example_client []) \<lparr>spell_check := None\<rparr>) = None" by simp
  have 4: "\<not> IsInitialized (text_iterator ?c4) \<and> \<not> opens (character_attributes ?c4) True"
    by (simp add: example_client_def IsInitialized_def closed_iterator_def)
  from 1 3 4
    spellCheck_fails_open [where ?text = "Some []" and c = "example_client []"
      and misspelling_start = "-1" and misspelling_len = 0]
    spellCheck_fails_open [where ?text = None and c = "example_client []"
      and misspelling_start = "-1" and misspelling_len = 0]
    spellCheck_fails_open [where ?text = "Some (utf16 ''teh'')"
      and c = "(example_client []) \<lparr>spell_check := None\<rparr>"
      and misspelling_start = "-1" and misspelling_len = 0]
    spellCheck_fails_open [where ?text = "Some (utf16 ''teh'')" and c = ?c4
      and misspelling_start = "-1" and misspelling_len = 0]
  show ?thesis by simp
qed

subsection \<open>The script pre-filter\<close>

text \<open>
  C7.  From a start index inside the text or at its end, \<open>HasWordCharacters\<close> returns
  true exactly when one of the code points of the text from that index on has a script
  other than \<open>USCRIPT_COMMON\<close>, the code points being those of the Unicode decoding
  \<open>code_points\<close>, surrogate pairs included; so it returns false only when every code point
  up to the end of the text is of the common script.  It never reads outside the text.
  (The index is a C \<^verbatim>\<open>int\<close>; the one call in the file passes 0.)
\<close>

theorem HasWordCharacters_scans_code_points:
  assumes "0 \<le> index"
  shows "HasWordCharacters uscript_getScript text index =
           Inr (\<exists>code \<in> set (code_points (drop (nat index) text)).
                  uscript_getScript code \<noteq> USCRIPT_COMMON)"
  using assms HasWordCharacters_decode [of uscript_getScript "text" "nat index"] by simp

theorem HasWordCharacters_scans_code_points_witness:
  "(0 :: int) \<le> 1 \<and>
   code_points (drop (nat 1) [0x61, 0x31, 0xD83D, 0xDE00, 0x32]) = [0x31, 0x1F600, 0x32] \<and>
   HasWordCharacters example_getScript [0x61, 0x31, 0xD83D, 0xDE00, 0x32] 1 = Inr True \<and>
   HasWordCharacters example_getScript [0x61, 0x31, 0xD83D, 0x32] 1 = Inr False"
proof -
  have 0: "(0 :: int) \<le> 1" by simp
  have 1: "code_points (drop (nat 1) [0x61, 0x31, 0xD83D, 0xDE00, 0x32]) = [0x31, 0x1F600, 0x32]"
    by code_simp
  have 2: "code_points (drop (nat 1) [0x61, 0x31, 0xD83D, 0x32]) = [0x31, 0xD83D, 0x32]"
    by code_simp
  have 3: "(\<exists>code \<in> set [0x31, 0x1F600, 0x32 :: uint32]. example_getScript code \<noteq> USCRIPT_COMMON) = True"
    by (simp add: example_getScript_def USCRIPT_COMMON_def)
  have 4: "(\<exists>code \<in> set [0x31, 0xD83D, 0x32 :: uint32]. example_getScript code \<noteq> USCRIPT_COMMON) = False"
    by (simp add: example_getScript_def USCRIPT_COMMON_def)
  from HasWordCharacters_scans_code_points [OF 0, of example_getScript "[0x61, 0x31, 0xD83D, 0xDE00, 0x32]"]
    HasWordCharacters_scans_code_points [OF 0, of example_getScript "[0x61, 0x31, 0xD83D, 0x32]"]
  show ?thesis unfolding 1 2 3 4 by simp
qed

subsection \<open>Contractions and the first misspelling\<close>

lemma find_map_index: "find P (map f xs) = map_option f (find (\<lambda>x. P (f x)) xs)"
  by (induction xs) auto

lemma first_failure_Nil [simp]: "first_failure ok after h [] = None"
  by (simp add: first_failure_def)

lemma first_failure_Cons:
  "first_failure ok after h (x # xs) =
     (if ok h x then map_option Suc (first_failure ok after (after h x) xs) else Some 0)"
proof -
  have "[0..<length (x # xs)] = 0 # map Suc [0..<length xs]"
    by (simp only: length_Cons upt_conv_Cons [OF zero_less_Suc] map_Suc_upt)
  then show ?thesis
    by (simp add: first_failure_def find_map_index)
qed

lemma first_failure_None_iff:
  "first_failure ok after h xs = None \<longleftrightarrow>
     (\<forall>i < length xs. ok (foldl after h (take i xs)) (xs ! i))"
  by (auto simp: first_failure_def find_None_iff)

lemma first_failure_Some_iff:
  "first_failure ok after h xs = Some k \<longleftrightarrow>
     k < length xs \<and> \<not> ok (foldl after h (take k xs)) (xs ! k) \<and>
     (\<forall>i < k. ok (foldl after h (take i xs)) (xs ! i))"
proof (induction xs arbitrary: h k)
  case Nil
  then show ?case by simp
next
  case (Cons x xs)
  show ?case
  proof (cases k)
    case 0
    then show ?thesis by (simp add: first_failure_Cons)
  next
    case (Suc j)
    have "(\<forall>i < Suc j. ok (foldl after h (take i (x # xs))) ((x # xs) ! i)) \<longleftrightarrow>
        ok h x \<and> (\<forall>i < j. ok (foldl after (after h x) (take i xs)) (xs ! i))"
      by (simp add: All_less_Suc2)
    then show ?thesis using Suc Cons.IH [of "after h x" j]
      by (auto simp: first_failure_Cons)
  qed
qed

lemma examined_simps [simp]:
  "examined xs None = xs"
  "examined (x # xs) (Some 0) = [x]"
  "examined (x # xs) (map_option Suc k) = x # examined xs k"
  by (cases k; simp add: examined_def)+

lemma CheckSpelling_step:
  assumes "spell_check c1 = spell_check c"
  shows "CheckSpelling c1 word
           = (accepted_in c (isolate c1) word, c1\<lparr>isolate := asked c (isolate c1) word\<rparr>)"
proof -
  have a: "fst (CheckSpelling c1 word) = accepted_in c (isolate c1) word"
    using assms
    by (auto simp: accepted_in_def CheckSpelling_def Let_def split: option.splits prod.splits js_value.splits)
  have b: "isolate (snd (CheckSpelling c1 word)) = asked c (isolate c1) word"
    using assms
    by (auto simp: asked_def CheckSpelling_def Let_def split: option.splits prod.splits js_value.splits)
  obtain h where h: "snd (CheckSpelling c1 word) = c1\<lparr>isolate := h\<rparr>"
    using CheckSpelling_frame [of c1 word "fst (CheckSpelling c1 word)" "snd (CheckSpelling c1 word)"]
    by auto
  with b have "h = asked c (isolate c1) word" by simp
  with h a show ?thesis
    by (simp add: prod_eq_iff)
qed

lemma IsValidContraction_loop_steps:
  assumes "spell_check c1 = spell_check c"
    and "remaining (contraction_iterator c1) = ws"
  shows "fst (IsValidContraction_loop c1) = (first_rejected c (isolate c1) (map fst ws) = None) \<and>
         isolate (snd (IsValidContraction_loop c1))
           = foldl (asked c) (isolate c1)
               (examined (map fst ws) (first_rejected c (isolate c1) (map fst ws))) \<and>
         iterator (contraction_iterator (snd (IsValidContraction_loop c1)))
           = iterator (contraction_iterator c1)"
  using assms
proof (induction ws arbitrary: c1)
  case Nil
  then show ?case
    by (simp add: IsValidContraction_loop.simps [of c1] GetNextWord_def first_rejected_def)
next
  case (Cons w ws)
  obtain word word_start word_length where w: "w = (word, word_start, word_length)"
    by (cases w) auto
  let ?it = "(contraction_iterator c1)\<lparr>remaining := ws\<rparr>"
  let ?c2 = "c1\<lparr>contraction_iterator := ?it, isolate := asked c (isolate c1) word\<rparr>"
  have g: "GetNextWord (contraction_iterator c1) = (Some (word, word_start, word_length), ?it)"
    using Cons.prems w by (simp add: GetNextWord_def)
  have ck: "CheckSpelling (c1\<lparr>contraction_iterator := ?it\<rparr>) word
      = (accepted_in c (isolate c1) word, ?c2)"
    using CheckSpelling_step [of "c1\<lparr>contraction_iterator := ?it\<rparr>" c word] Cons.prems
    by simp
  show ?case
  proof (cases "accepted_in c (isolate c1) word")
    case False
    then show ?thesis using g ck w
      by (simp add: IsValidContraction_loop.simps [of c1] first_rejected_def first_failure_Cons)
  next
    case True
    have "IsValidContraction_loop c1 = IsValidContraction_loop ?c2"
      using g ck True by (simp add: IsValidContraction_loop.simps [of c1])
    moreover have "spell_check ?c2 = spell_check c" "remaining (contraction_iterator ?c2) = ws"
      using Cons.prems by simp_all
    ultimately show ?thesis using Cons.IH [of ?c2] True w
      by (simp add: first_rejected_def first_failure_Cons)
  qed
qed

lemma IsValidContraction_steps:
  assumes "spell_check c1 = spell_check c"
    and "rules (contraction_iterator c1) (character_attributes c1) False
          = rules (contraction_iterator c) (character_attributes c) False"
  shows "fst (IsValidContraction c1 word)
           = (first_rejected c (isolate c1) (sub_words c word) = None) \<and>
         isolate (snd (IsValidContraction c1 word))
           = foldl (asked c) (isolate c1)
               (examined (sub_words c word) (first_rejected c (isolate c1) (sub_words c word))) \<and>
         rules (contraction_iterator (snd (IsValidContraction c1 word)))
             (character_attributes (snd (IsValidContraction c1 word))) False
           = rules (contraction_iterator c) (character_attributes c) False"
proof (cases "rules (contraction_iterator c1) (character_attributes c1) False")
  case None
  then have "\<not> IsInitialized (contraction_iterator c1)" "\<not> opens (character_attributes c1) False"
    by (auto simp: rules_def IsInitialized_def split: if_splits)
  then have "IsValidContraction c1 word = (True, c1)"
    by (simp add: IsValidContraction_def Initialize_def)
  then show ?thesis using None assms(2) by (simp add: sub_words_def first_rejected_def)
next
  case (Some split)
  define it where "it = (if IsInitialized (contraction_iterator c1) then contraction_iterator c1
     else (contraction_iterator c1)\<lparr>iterator := Some (breaks (character_attributes c1) False)\<rparr>)"
  have its: "iterator it = Some split"
    using Some by (auto simp: it_def rules_def split: if_splits)
  let ?c2 = "c1\<lparr>contraction_iterator := it\<lparr>remaining := split word\<rparr>\<rparr>"
  have run: "IsValidContraction c1 word = IsValidContraction_loop ?c2"
    using Some its
    by (auto simp: IsValidContraction_def Initialize_def Let_def SetText_def it_def rules_def
        split: if_splits)
  have f: "text_iterator (snd (IsValidContraction_loop ?c2)) = text_iterator ?c2 \<and>
     character_attributes (snd (IsValidContraction_loop ?c2)) = character_attributes ?c2 \<and>
     provider (snd (IsValidContraction_loop ?c2)) = provider ?c2 \<and>
     spell_check (snd (IsValidContraction_loop ?c2)) = spell_check ?c2"
    by (rule IsValidContraction_loop_frame [of ?c2 "fst (IsValidContraction_loop ?c2)"]) simp
  have l: "fst (IsValidContraction_loop ?c2)
           = (first_rejected c (isolate ?c2) (map fst (split word)) = None) \<and>
         isolate (snd (IsValidContraction_loop ?c2))
           = foldl (asked c) (isolate ?c2)
               (examined (map fst (split word)) (first_rejected c (isolate ?c2) (map fst (split word)))) \<and>
         iterator (contraction_iterator (snd (IsValidContraction_loop ?c2)))
           = iterator (contraction_iterator ?c2)"
    by (rule IsValidContraction_loop_steps) (simp_all add: assms(1))
  have sw: "sub_words c word = map fst (split word)"
    using Some assms(2) by (simp add: sub_words_def)
  have r: "rules (contraction_iterator (snd (IsValidContraction_loop ?c2)))
             (character_attributes (snd (IsValidContraction_loop ?c2))) False = Some split"
    using l its by (simp add: rules_def IsInitialized_def)
  show ?thesis using run l sw r Some assms(2) by simp
qed


lemma spellCheck_loop_steps:
  assumes "spell_check c1 = spell_check c"
    and "rules (contraction_iterator c1) (character_attributes c1) False
          = rules (contraction_iterator c) (character_attributes c) False"
    and "remaining (text_iterator c1) = ws"
  shows "fst (spellCheck_loop c1 (misspelling_start, misspelling_len))
           = (case first_misspelling c (isolate c1) ws of
                None \<Rightarrow> (misspelling_start, misspelling_len)
              | Some k \<Rightarrow> snd (ws ! k)) \<and>
         isolate (snd (spellCheck_loop c1 (misspelling_start, misspelling_len)))
           = foldl (after_word c) (isolate c1) (examined ws (first_misspelling c (isolate c1) ws))"
  using assms
proof (induction ws arbitrary: c1)
  case Nil
  then show ?case
    by (simp add: spellCheck_loop.simps [of c1] GetNextWord_def first_misspelling_def)
next
  case (Cons w ws)
  obtain word word_start word_length where w: "w = (word, word_start, word_length)"
    by (cases w) auto
  let ?it = "(text_iterator c1)\<lparr>remaining := ws\<rparr>"
  let ?c2 = "c1\<lparr>text_iterator := ?it, isolate := asked c (isolate c1) word\<rparr>"
  have g: "GetNextWord (text_iterator c1) = (Some (word, word_start, word_length), ?it)"
    using Cons.prems w by (simp add: GetNextWord_def)
  have ck: "CheckSpelling (c1\<lparr>text_iterator := ?it\<rparr>) word
      = (accepted_in c (isolate c1) word, ?c2)"
    using CheckSpelling_step [of "c1\<lparr>text_iterator := ?it\<rparr>" c word] Cons.prems
    by simp
  have c2: "spell_check ?c2 = spell_check c"
    "rules (contraction_iterator ?c2) (character_attributes ?c2) False
          = rules (contraction_iterator c) (character_attributes c) False"
    "remaining (text_iterator ?c2) = ws"
    using Cons.prems by simp_all
  show ?case
  proof (cases "accepted_in c (isolate c1) word")
    case True
    have run: "spellCheck_loop c1 (misspelling_start, misspelling_len)
        = spellCheck_loop ?c2 (misspelling_start, misspelling_len)"
      using g ck True by (simp add: spellCheck_loop.simps [of c1])
    have p: "passes_in c (isolate c1) w" using True w by (simp add: passes_in_def)
    have a: "after_word c (isolate c1) w = isolate ?c2" using True w by (simp add: after_word_def)
    show ?thesis using Cons.IH [OF c2] p a
      by (simp add: run first_misspelling_def first_failure_Cons split: option.splits)
  next
    case False
    obtain valid c3 where v: "IsValidContraction ?c2 word = (valid, c3)"
      by (cases "IsValidContraction ?c2 word") auto
    from IsValidContraction_steps [OF c2(1) c2(2), of word] v
    have valid: "valid = (first_rejected c (isolate ?c2) (sub_words c word) = None)"
      and iso: "isolate c3 = foldl (asked c) (isolate ?c2)
                  (examined (sub_words c word) (first_rejected c (isolate ?c2) (sub_words c word)))"
      and r3: "rules (contraction_iterator c3) (character_attributes c3) False
          = rules (contraction_iterator c) (character_attributes c) False"
      by simp_all
    from IsValidContraction_frame [OF v]
    have f3: "text_iterator c3 = text_iterator ?c2" "spell_check c3 = spell_check ?c2"
      by simp_all
    have p: "passes_in c (isolate c1) w = valid" using False valid w by (simp add: passes_in_def)
    have a: "after_word c (isolate c1) w = isolate c3" using False iso w by (simp add: after_word_def)
    show ?thesis
    proof (cases valid)
      case True
      have run: "spellCheck_loop c1 (misspelling_start, misspelling_len)
          = spellCheck_loop c3 (misspelling_start, misspelling_len)"
        using g ck False v True by (simp add: spellCheck_loop.simps [of c1])
      have "spell_check c3 = spell_check c" "remaining (text_iterator c3) = ws"
        using f3 c2 by simp_all
      from Cons.IH [OF this(1) r3 this(2)] p a True show ?thesis
        by (simp add: run first_misspelling_def first_failure_Cons split: option.splits)
    next
      case nv: False
      have "spellCheck_loop c1 (misspelling_start, misspelling_len)
          = ((word_start, word_length), c3)"
        using g ck False v nv by (simp add: spellCheck_loop.simps [of c1])
      then show ?thesis using p a nv w
        by (simp add: first_misspelling_def first_failure_Cons)
    qed
  qed
qed

lemma unbound_checker:
  assumes "spell_check c = None"
  shows "accepted_in c h word" and "asked c h word = h"
  using assms by (simp_all add: accepted_in_def asked_def CheckSpelling_def)

lemma unbound_words:
  assumes "spell_check c = None"
  shows "first_misspelling c h ws = None" and "foldl (after_word c) h ws = h"
proof -
  have p: "\<And>h w. passes_in c h w" using assms by (simp add: passes_in_def unbound_checker)
  have a: "\<And>h w. after_word c h w = h" using assms by (simp add: after_word_def unbound_checker)
  show "first_misspelling c h ws = None"
    by (simp add: first_misspelling_def first_failure_None_iff p)
  show "foldl (after_word c) h ws = h"
    by (induction ws) (simp_all add: a)
qed

text \<open>
  C2.  \<open>spellCheck\<close> goes through the words of the text from left to right, each word in
  the state of the isolate that the queries for the words before it left.  A word passes
  when the checker accepts it or, failing that, contraction resolution does.  The slots
  come back holding the start and length of the first word that does not pass, and the
  caller's values when every word passes.  The state of the isolate at return is the
  state after examining the words up to and including that first word that does not
  pass, so no later word is put to the checker.  This holds for every client, text and
  checker, whatever the checker's answers depend on.
\<close>

theorem spellCheck_reports_first_misspelling:
  "fst (spellCheck c text (misspelling_start, misspelling_len))
     = (case first_misspelling c (isolate c) (words_of c text) of
          None \<Rightarrow> (misspelling_start, misspelling_len)
        | Some k \<Rightarrow> snd (words_of c text ! k)) \<and>
   isolate (snd (spellCheck c text (misspelling_start, misspelling_len)))
     = foldl (after_word c) (isolate c)
         (examined (words_of c text) (first_misspelling c (isolate c) (words_of c text)))"
proof (cases "WebString_length text = 0 \<or> spell_check c = None")
  case True
  then have "spellCheck c text (misspelling_start, misspelling_len)
      = ((misspelling_start, misspelling_len), c)"
    by (auto simp: spellCheck_def)
  moreover have "first_misspelling c (isolate c) (words_of c text) = None \<and>
    foldl (after_word c) (isolate c) (words_of c text) = isolate c"
  proof (cases "spell_check c = None")
    case True
    then show ?thesis by (simp add: unbound_words)
  next
    case False
    with \<open>WebString_length text = 0 \<or> spell_check c = None\<close>
    have "words_of c text = []" by (simp add: words_of_def)
    then show ?thesis by (simp add: first_misspelling_def)
  qed
  ultimately show ?thesis by simp
next
  case False
  show ?thesis
  proof (cases "rules (text_iterator c) (character_attributes c) True")
    case None
    then have "\<not> IsInitialized (text_iterator c)" "\<not> opens (character_attributes c) True"
      by (auto simp: rules_def IsInitialized_def split: if_splits)
    then have "spellCheck c text (misspelling_start, misspelling_len)
        = ((misspelling_start, misspelling_len), c)"
      by (simp add: spellCheck_def Initialize_def)
    then show ?thesis using None by (simp add: words_of_def first_misspelling_def)
  next
    case (Some split)
    define it where "it = (if IsInitialized (text_iterator c) then text_iterator c
       else (text_iterator c)\<lparr>iterator := Some (breaks (character_attributes c) True)\<rparr>)"
    have its: "iterator it = Some split"
      using Some by (auto simp: it_def rules_def split: if_splits)
    let ?c2 = "c\<lparr>text_iterator := it\<lparr>remaining := split (to_string16 text)\<rparr>\<rparr>"
    have run: "spellCheck c text (misspelling_start, misspelling_len)
        = spellCheck_loop ?c2 (misspelling_start, misspelling_len)"
      using Some its False
      by (auto simp: spellCheck_def Initialize_def Let_def SetText_def it_def rules_def
          split: if_splits)
    have w: "words_of c text = split (to_string16 text)"
      using Some False by (simp add: words_of_def)
    show ?thesis
      unfolding run w
      using spellCheck_loop_steps [of ?c2 c "split (to_string16 text)"
          misspelling_start misspelling_len]
      by simp
  qed
qed


text \<open>
  C4.  \<open>IsValidContraction\<close> answers true, and changes nothing, when the contraction
  iterator is not initialized and its initialization fails.  Otherwise it splits the word
  into sub-words and puts them to the checker in order, each in the state of the isolate
  that the queries before it left; it answers true exactly when every sub-word is
  accepted (so also when there is none), and false when one is rejected.  The state of
  the isolate at return is the state after the queries for the sub-words up to and
  including the first rejected one, so no sub-word behind a rejected one is put to the
  checker.  This holds for every client, word and checker, whatever the checker's answers
  depend on.
\<close>

theorem IsValidContraction_resolves:
  "(\<not> IsInitialized (contraction_iterator c) \<and> \<not> opens (character_attributes c) False \<longrightarrow>
      IsValidContraction c contraction = (True, c)) \<and>
   (IsInitialized (contraction_iterator c) \<or> opens (character_attributes c) False \<longrightarrow>
      fst (IsValidContraction c contraction)
        = (\<forall>i < length (sub_words c contraction).
             accepted_in c (foldl (asked c) (isolate c) (take i (sub_words c contraction)))
               (sub_words c contraction ! i)) \<and>
      isolate (snd (IsValidContraction c contraction))
        = foldl (asked c) (isolate c)
            (examined (sub_words c contraction)
               (first_rejected c (isolate c) (sub_words c contraction))))"
proof -
  have "\<not> IsInitialized (contraction_iterator c) \<and> \<not> opens (character_attributes c) False \<longrightarrow>
            IsValidContraction c contraction = (True, c)"
    by (simp add: IsValidContraction_def Initialize_def)
  then show ?thesis
    using IsValidContraction_steps [of c c contraction]
    by (simp add: first_rejected_def first_failure_None_iff)
qed


theorem IsValidContraction_resolves_witness:
  "opens (character_attributes (example_client [utf16 ''in'', utf16 ''n'', utf16 ''out''])) False \<and>
   fst (IsValidContraction (example_client [utf16 ''in'', utf16 ''n'', utf16 ''out'']) (utf16 ''in'n'out''))
     = True \<and>
   isolate (snd (IsValidContraction (example_client [utf16 ''in'', utf16 ''n'', utf16 ''out''])
       (utf16 ''in'n'out'')))
     = [utf16 ''in'', utf16 ''n'', utf16 ''out''] \<and>
   fst (IsValidContraction (example_client [utf16 ''in'', utf16 ''out'']) (utf16 ''in'n'out'')) = False \<and>
   isolate (snd (IsValidContraction (example_client [utf16 ''in'', utf16 ''out'']) (utf16 ''in'n'out'')))
     = [utf16 ''in'', utf16 ''n''] \<and>
   sub_words (example_client []) (utf16 '' ' '') = [] \<and>
   fst (IsValidContraction (example_client []) (utf16 '' ' '')) = True \<and>
   fst (IsValidContraction ((example_client []) \<lparr>spell_check := Some first_time\<rparr>) (utf16 ''a'a'b''))
     = False \<and>
   isolate (snd (IsValidContraction ((example_client []) \<lparr>spell_check := Some first_time\<rparr>)
       (utf16 ''a'a'b'')))
     = [utf16 ''a'', utf16 ''a''] \<and>
   IsValidContraction
       ((example_client []) \<lparr>character_attributes := example_attributes \<lparr>opens := \<lambda>a. False\<rparr>\<rparr>)
       (utf16 ''xyz'')
     = (True, (example_client []) \<lparr>character_attributes := example_attributes \<lparr>opens := \<lambda>a. False\<rparr>\<rparr>)"
proof -
  let ?c1 = "example_client [utf16 ''in'', utf16 ''n'', utf16 ''out'']"
  let ?c2 = "example_client [utf16 ''in'', utf16 ''out'']"
  let ?c3 = "example_client []"
  let ?c4 = "(example_client []) \<lparr>character_attributes := example_attributes \<lparr>opens := \<lambda>a. False\<rparr>\<rparr>"
  let ?c5 = "(example_client []) \<lparr>spell_check := Some first_time\<rparr>"
  let ?w = "utf16 ''in'n'out''"
  let ?v = "utf16 ''a'a'b''"
  have o: "opens (character_attributes ?c1) False" "opens (character_attributes ?c2) False"
    "opens (character_attributes ?c3) False" "opens (character_attributes ?c5) False"
    by (simp_all add: example_client_def example_attributes_def)
  have f: "\<not> IsInitialized (contraction_iterator ?c4) \<and> \<not> opens (character_attributes ?c4) False"
    by (simp add: example_client_def IsInitialized_def closed_iterator_def)
  have r1: "first_rejected ?c1 (isolate ?c1) (sub_words ?c1 ?w) = None"
    by code_simp
  have r2: "first_rejected ?c2 (isolate ?c2) (sub_words ?c2 ?w) = Some 1"
    by code_simp
  have r3: "first_rejected ?c3 (isolate ?c3) (sub_words ?c3 (utf16 '' ' '')) = None"
    by code_simp
  have r5: "first_rejected ?c5 (isolate ?c5) (sub_words ?c5 ?v) = Some 1"
    by code_simp
  have a1: "(\<forall>i < length (sub_words ?c1 ?w).
      accepted_in ?c1 (foldl (asked ?c1) (isolate ?c1) (take i (sub_words ?c1 ?w))) (sub_words ?c1 ?w ! i)) = True"
    using r1 first_failure_None_iff [of "accepted_in ?c1" "asked ?c1" "isolate ?c1" "sub_words ?c1 ?w"]
    by (simp add: first_rejected_def)
  have a2: "(\<forall>i < length (sub_words ?c2 ?w).
      accepted_in ?c2 (foldl (asked ?c2) (isolate ?c2) (take i (sub_words ?c2 ?w))) (sub_words ?c2 ?w ! i)) = False"
    using r2 first_failure_None_iff [of "accepted_in ?c2" "asked ?c2" "isolate ?c2" "sub_words ?c2 ?w"]
    by (simp add: first_rejected_def)
  have a3: "(\<forall>i < length (sub_words ?c3 (utf16 '' ' '')).
      accepted_in ?c3 (foldl (asked ?c3) (isolate ?c3) (take i (sub_words ?c3 (utf16 '' ' ''))))
        (sub_words ?c3 (utf16 '' ' '') ! i)) = True"
    using r3 first_failure_None_iff [of "accepted_in ?c3" "asked ?c3" "isolate ?c3"
        "sub_words ?c3 (utf16 '' ' '')"]
    by (simp add: first_rejected_def)
  have a5: "(\<forall>i < length (sub_words ?c5 ?v).
      accepted_in ?c5 (foldl (asked ?c5) (isolate ?c5) (take i (sub_words ?c5 ?v))) (sub_words ?c5 ?v ! i)) = False"
    using r5 first_failure_None_iff [of "accepted_in ?c5" "asked ?c5" "isolate ?c5" "sub_words ?c5 ?v"]
    by (simp add: first_rejected_def)
  have q1: "foldl (asked ?c1) (isolate ?c1)
      (examined (sub_words ?c1 ?w) (first_rejected ?c1 (isolate ?c1) (sub_words ?c1 ?w)))
     = [utf16 ''in'', utf16 ''n'', utf16 ''out'']"
    by code_simp
  have q2: "foldl (asked ?c2) (isolate ?c2)
      (examined (sub_words ?c2 ?w) (first_rejected ?c2 (isolate ?c2) (sub_words ?c2 ?w)))
     = [utf16 ''in'', utf16 ''n'']"
    by code_simp
  have q5: "foldl (asked ?c5) (isolate ?c5)
      (examined (sub_words ?c5 ?v) (first_rejected ?c5 (isolate ?c5) (sub_words ?c5 ?v)))
     = [utf16 ''a'', utf16 ''a'']"
    by code_simp
  have s3: "sub_words ?c3 (utf16 '' ' '') = []"
    by code_simp
  from IsValidContraction_resolves [of ?c1 ?w] IsValidContraction_resolves [of ?c2 ?w]
    IsValidContraction_resolves [of ?c3 "utf16 '' ' ''"]
    IsValidContraction_resolves [of ?c5 ?v]
    IsValidContraction_resolves [of ?c4 "utf16 ''xyz''"]
  show ?thesis unfolding a1 a2 a3 a5 q1 q2 q5 using o f s3 by simp
qed


theorem spellCheck_reports_first_misspelling_witness:
  "map fst (words_of (example_client [utf16 ''the'', utf16 ''in'', utf16 ''n'', utf16 ''out''])
              (Some (utf16 ''the in'n'out burgr frie'')))
     = [utf16 ''the'', utf16 ''in'n'out'', utf16 ''burgr'', utf16 ''frie''] \<and>
   fst (spellCheck (example_client [utf16 ''the'', utf16 ''in'', utf16 ''n'', utf16 ''out''])
          (Some (utf16 ''the in'n'out burgr frie'')) (-1, 0)) = (13, 5) \<and>
   isolate (snd (spellCheck (example_client [utf16 ''the'', utf16 ''in'', utf16 ''n'', utf16 ''out''])
          (Some (utf16 ''the in'n'out burgr frie'')) (-1, 0)))
     = [utf16 ''the'', utf16 ''in'n'out'', utf16 ''in'', utf16 ''n'', utf16 ''out'',
        utf16 ''burgr'', utf16 ''burgr''] \<and>
   fst (spellCheck (example_client [utf16 ''the'', utf16 ''in'', utf16 ''n'', utf16 ''out''])
          (Some (utf16 ''the in'n'out'')) (-1, 0)) = (-1, 0) \<and>
   fst (spellCheck ((example_client []) \<lparr>spell_check := Some seen_before\<rparr>)
          (Some (utf16 ''a a'')) (-1, 0)) = (-1, 0) \<and>
   isolate (snd (spellCheck ((example_client []) \<lparr>spell_check := Some seen_before\<rparr>)
          (Some (utf16 ''a a'')) (-1, 0)))
     = [utf16 ''a'', utf16 ''a'', utf16 ''a'']"
proof -
  let ?c = "example_client [utf16 ''the'', utf16 ''in'', utf16 ''n'', utf16 ''out'']"
  let ?d = "(example_client []) \<lparr>spell_check := Some seen_before\<rparr>"
  let ?t = "Some (utf16 ''the in'n'out burgr frie'')"
  let ?u = "Some (utf16 ''the in'n'out'')"
  let ?v = "Some (utf16 ''a a'')"
  have w: "map fst (words_of ?c ?t)
     = [utf16 ''the'', utf16 ''in'n'out'', utf16 ''burgr'', utf16 ''frie'']"
    by code_simp
  have r1: "(case first_misspelling ?c (isolate ?c) (words_of ?c ?t) of
                None \<Rightarrow> (-1, 0) | Some k \<Rightarrow> snd (words_of ?c ?t ! k)) = (13, 5)"
    by code_simp
  have r2: "foldl (after_word ?c) (isolate ?c)
               (examined (words_of ?c ?t) (first_misspelling ?c (isolate ?c) (words_of ?c ?t)))
     = [utf16 ''the'', utf16 ''in'n'out'', utf16 ''in'', utf16 ''n'', utf16 ''out'',
        utf16 ''burgr'', utf16 ''burgr'']"
    by code_simp
  have r3: "(case first_misspelling ?c (isolate ?c) (words_of ?c ?u) of
                None \<Rightarrow> (-1, 0) | Some k \<Rightarrow> snd (words_of ?c ?u ! k)) = (-1, 0)"
    by code_simp
  have r4: "(case first_misspelling ?d (isolate ?d) (words_of ?d ?v) of
                None \<Rightarrow> (-1, 0) | Some k \<Rightarrow> snd (words_of ?d ?v ! k)) = (-1, 0)"
    by code_simp
  have r5: "foldl (after_word ?d) (isolate ?d)
               (examined (words_of ?d ?v) (first_misspelling ?d (isolate ?d) (words_of ?d ?v)))
     = [utf16 ''a'', utf16 ''a'', utf16 ''a'']"
    by code_simp
  from spellCheck_reports_first_misspelling [of ?c ?t "-1" 0]
    spellCheck_reports_first_misspelling [of ?c ?u "-1" 0]
    spellCheck_reports_first_misspelling [of ?d ?v "-1" 0]
  show ?thesis unfolding r1 r2 r3 r4 r5 using w by simp
qed

end
